theory Spec2Isabelle
  imports Main "HOL-Library.AList" "HOL-Library.Char_ord" "HOL-Library.List_Lexorder"
    "HOL-Library.Product_Lexorder"
begin

section \<open>Data model\<close>

text \<open>
  The two SQLAlchemy models of \<^verbatim>\<open>backend-models-prompt-trigger-questions.py\<close>
  are records; a nullable column is an option. A \<^verbatim>\<open>DateTime\<close> is an abstract
  timestamp. Python's \<^verbatim>\<open>int\<close> is unbounded, so ids and versions are \<open>int\<close>
  (the 32-bit limit of the SQL \<^verbatim>\<open>Integer\<close> column is not modelled).
\<close>

type_synonym datetime = int

record question =
  q_id :: int
  question_text :: string
  group_name :: string
  source_shorthand :: string
  version :: int
  is_active :: bool
  created_at :: datetime
  created_by :: "string option"
  updated_at :: datetime
  updated_by :: "string option"

record history_entry =
  h_id :: int
  h_question_id :: int
  h_question_text :: string
  h_group_name :: string
  h_source_shorthand :: string
  h_version :: int
  h_created_at :: datetime
  h_created_by :: "string option"
  h_replaced_at :: datetime
  h_replaced_by :: "string option"
  h_reason :: "string option"

text \<open>
  The session is the state: both tables in insertion order, and the two
  autoincrement counters from which the database hands out primary keys.
  Every call of \<^verbatim>\<open>dt.datetime.utcnow()\<close> reads the environment; an operation
  takes the readings as a function \<open>now\<close>, whose value at \<open>k\<close> is what the
  \<open>k\<close>-th call within that operation returns.
\<close>

record store =
  questions :: "question list"
  history :: "history_entry list"
  next_question_id :: int
  next_history_id :: int

text \<open>Truthiness of an \<^verbatim>\<open>Optional[str]\<close>: \<^verbatim>\<open>None\<close> and \<^verbatim>\<open>""\<close> are falsy.\<close>

fun py_truthy :: "string option \<Rightarrow> bool" where
  "py_truthy None = False"
| "py_truthy (Some v) = (v \<noteq> [])"

text \<open>\<^verbatim>\<open>str(n)\<close> of an integer, as the f-strings format it.\<close>

definition digit_char :: "nat \<Rightarrow> char" where
  "digit_char d = ''0123456789'' ! (d mod 10)"

function str_of_nat :: "nat \<Rightarrow> string" where
  "str_of_nat n = (if n < 10 then [digit_char n] else str_of_nat (n div 10) @ [digit_char (n mod 10)])"
  by pat_completeness auto
termination
  by (relation "measure id") auto

definition str_of_int :: "int \<Rightarrow> string" where
  "str_of_int i = (if i < 0 then CHR ''-'' # str_of_nat (nat (- i)) else str_of_nat (nat i))"

section \<open>Session primitives\<close>

text \<open>
  \<^verbatim>\<open>session.add\<close> of a new history object followed by commit inserts the row
  under the next primary key; of a loaded question it issues
  \<^verbatim>\<open>UPDATE ... WHERE id = question.id\<close>. \<^verbatim>\<open>session.delete\<close> of a question
  removes the row and, by the cascade of the relationship and of the foreign
  key, its history rows.
\<close>

definition add_history :: "store \<Rightarrow> history_entry \<Rightarrow> store" where
  "add_history s h =
     s\<lparr>history := history s @ [h\<lparr>h_id := next_history_id s\<rparr>],
       next_history_id := next_history_id s + 1\<rparr>"

definition save_question :: "store \<Rightarrow> question \<Rightarrow> store" where
  "save_question s q =
     s\<lparr>questions := map (\<lambda>r. if q_id r = q_id q then q else r) (questions s)\<rparr>"

definition session_delete :: "store \<Rightarrow> question \<Rightarrow> store" where
  "session_delete s q =
     s\<lparr>questions := filter (\<lambda>r. q_id r \<noteq> q_id q) (questions s),
       history := filter (\<lambda>h. h_question_id h \<noteq> q_id q) (history s)\<rparr>"

section \<open>Basic CRUD operations\<close>

definition get_all_questions ::
  "store \<Rightarrow> string option \<Rightarrow> string option \<Rightarrow> bool \<Rightarrow> question list" where
  "get_all_questions s source_shorthand' group_name' include_inactive =
     (let filters =
            (if \<not> include_inactive then [\<lambda>q. is_active q = True] else [])
          @ (if py_truthy source_shorthand' then [\<lambda>q. Some (source_shorthand q) = source_shorthand'] else [])
          @ (if py_truthy group_name' then [\<lambda>q. Some (group_name q) = group_name'] else []);
          rows = (if filters \<noteq> [] then filter (\<lambda>q. list_all (\<lambda>f. f q) filters) (questions s)
                  else questions s)
      in sort_key (\<lambda>q. (group_name q, q_id q)) rows)"

definition get_question_by_id :: "store \<Rightarrow> int \<Rightarrow> question option" where
  "get_question_by_id s question_id = find (\<lambda>q. q_id q = question_id) (questions s)"

definition create_question ::
  "store \<Rightarrow> (nat \<Rightarrow> datetime) \<Rightarrow> string \<Rightarrow> string \<Rightarrow> string \<Rightarrow> string option \<Rightarrow> question \<times> store" where
  "create_question s now question_text' group_name' source_shorthand' created_by' =
     (let question = \<lparr>q_id = next_question_id s,
                       question_text = question_text',
                       group_name = group_name',
                       source_shorthand = source_shorthand',
                       version = 1,
                       is_active = True,
                       created_at = now 0,
                       created_by = created_by',
                       updated_at = now 1,
                       updated_by = created_by'\<rparr>
      in (question, s\<lparr>questions := questions s @ [question],
                      next_question_id := next_question_id s + 1\<rparr>))"

definition delete_question :: "store \<Rightarrow> int \<Rightarrow> bool \<times> store" where
  "delete_question s question_id =
     (case get_question_by_id s question_id of
        None \<Rightarrow> (False, s)
      | Some question \<Rightarrow> (True, session_delete s question))"

section \<open>Update with history tracking\<close>

definition update_question_with_history ::
  "store \<Rightarrow> (nat \<Rightarrow> datetime) \<Rightarrow> int \<Rightarrow> string \<Rightarrow> string option \<Rightarrow> string option \<Rightarrow>
     string option \<Rightarrow> string option \<Rightarrow> question option \<times> store" where
  "update_question_with_history s now question_id updated_by' question_text' group_name'
       source_shorthand' reason =
     (case get_question_by_id s question_id of
        None \<Rightarrow> (None, s)
      | Some question \<Rightarrow>
          (let history_entry = \<lparr>h_id = 0,  \<comment> \<open>unset until the insert\<close>
                                h_question_id = q_id question,
                                h_question_text = question_text question,
                                h_group_name = group_name question,
                                h_source_shorthand = source_shorthand question,
                                h_version = version question,
                                h_created_at = created_at question,
                                h_created_by = created_by question,
                                h_replaced_at = now 0,
                                h_replaced_by = Some updated_by',
                                h_reason = reason\<rparr>;
               s1 = add_history s history_entry;
               question1 = (case question_text' of None \<Rightarrow> question
                            | Some v \<Rightarrow> question\<lparr>question_text := v\<rparr>);
               question2 = (case group_name' of None \<Rightarrow> question1
                            | Some v \<Rightarrow> question1\<lparr>group_name := v\<rparr>);
               question3 = (case source_shorthand' of None \<Rightarrow> question2
                            | Some v \<Rightarrow> question2\<lparr>source_shorthand := v\<rparr>);
               question4 = question3\<lparr>version := version question3 + 1,
                                      updated_at := now 1,
                                      updated_by := Some updated_by'\<rparr>
           in (Some question4, save_question s1 question4)))"

definition toggle_active_status ::
  "store \<Rightarrow> (nat \<Rightarrow> datetime) \<Rightarrow> int \<Rightarrow> bool \<Rightarrow> string \<Rightarrow> string option \<Rightarrow>
     question option \<times> store" where
  "toggle_active_status s now question_id is_active' updated_by' reason =
     (case get_question_by_id s question_id of
        None \<Rightarrow> (None, s)
      | Some question \<Rightarrow>
          if is_active question = is_active' then (Some question, s)
          else
            (let history_entry = \<lparr>h_id = 0,
                                  h_question_id = q_id question,
                                  h_question_text = question_text question,
                                  h_group_name = group_name question,
                                  h_source_shorthand = source_shorthand question,
                                  h_version = version question,
                                  h_created_at = created_at question,
                                  h_created_by = created_by question,
                                  h_replaced_at = now 0,
                                  h_replaced_by = Some updated_by',
                                  h_reason = (if py_truthy reason then reason
                                              else Some ((if is_active' then ''Activated''
                                                          else ''Deactivated'') @ '' question''))\<rparr>;
                 s1 = add_history s history_entry;
                 question1 = question\<lparr>is_active := is_active',
                                       version := version question + 1,
                                       updated_at := now 1,
                                       updated_by := Some updated_by'\<rparr>
             in (Some question1, save_question s1 question1)))"

section \<open>History operations\<close>

text \<open>
  \<^verbatim>\<open>ORDER BY version DESC\<close>; rows of equal version (SQL leaves their order
  open) stay in insertion order.
\<close>

definition get_question_history :: "store \<Rightarrow> int \<Rightarrow> history_entry list" where
  "get_question_history s question_id =
     sort_key (\<lambda>h. - h_version h) (filter (\<lambda>h. h_question_id h = question_id) (history s))"

definition get_history_entry :: "store \<Rightarrow> int \<Rightarrow> history_entry option" where
  "get_history_entry s history_id = find (\<lambda>h. h_id h = history_id) (history s)"

definition restore_question_version ::
  "store \<Rightarrow> (nat \<Rightarrow> datetime) \<Rightarrow> int \<Rightarrow> int \<Rightarrow> string \<Rightarrow> string option \<Rightarrow>
     question option \<times> store" where
  "restore_question_version s now question_id history_id restored_by reason =
     (case get_history_entry s history_id of
        None \<Rightarrow> (None, s)
      | Some history_entry \<Rightarrow>
          if h_question_id history_entry \<noteq> question_id then (None, s)
          else
            (let restore_reason = (if py_truthy reason then the reason
                                   else ''Restored to version '' @ str_of_int (h_version history_entry))
             in update_question_with_history s now question_id restored_by
                  (Some (h_question_text history_entry))
                  (Some (h_group_name history_entry))
                  (Some (h_source_shorthand history_entry))
                  (Some restore_reason)))"

section \<open>Group operations\<close>

text \<open>
  A \<^verbatim>\<open>GROUP BY\<close> with \<^verbatim>\<open>count\<close>: one row per distinct key, with the number of
  rows that carry it.
\<close>

definition group_by_count :: "('a \<Rightarrow> string) \<Rightarrow> 'a list \<Rightarrow> (string \<times> int) list" where
  "group_by_count key rows =
     map (\<lambda>k. (k, int (length (filter (\<lambda>r. key r = k) rows)))) (remdups (map key rows))"

definition get_all_groups :: "store \<Rightarrow> string option \<Rightarrow> bool \<Rightarrow> (string \<times> int) list" where
  "get_all_groups s source_shorthand' include_inactive =
     (let filters =
            (if \<not> include_inactive then [\<lambda>q. is_active q = True] else [])
          @ (if py_truthy source_shorthand' then [\<lambda>q. Some (source_shorthand q) = source_shorthand'] else []);
          rows = (if filters \<noteq> [] then filter (\<lambda>q. list_all (\<lambda>f. f q) filters) (questions s)
                  else questions s)
      in sort_key fst (group_by_count group_name rows))"

text \<open>
  The loop of \<^verbatim>\<open>rename_group\<close> over the loaded questions; the \<open>i\<close>-th
  iteration reads the clock once.
\<close>

fun rename_loop :: "store \<Rightarrow> (nat \<Rightarrow> datetime) \<Rightarrow> string \<Rightarrow> string \<Rightarrow> nat \<Rightarrow> question list \<Rightarrow> store" where
  "rename_loop s now new_name updated_by' i [] = s"
| "rename_loop s now new_name updated_by' i (question # rest) =
     rename_loop
       (save_question s (question\<lparr>group_name := new_name,
                                  updated_at := now i,
                                  updated_by := Some updated_by'\<rparr>))
       now new_name updated_by' (Suc i) rest"

definition rename_group ::
  "store \<Rightarrow> (nat \<Rightarrow> datetime) \<Rightarrow> string \<Rightarrow> string \<Rightarrow> string \<Rightarrow> int \<times> store" where
  "rename_group s now old_name new_name updated_by' =
     (let qs = get_all_questions s None (Some old_name) True
      in (int (length qs), rename_loop s now new_name updated_by' 0 qs))"

fun delete_loop :: "store \<Rightarrow> question list \<Rightarrow> store" where
  "delete_loop s [] = s"
| "delete_loop s (question # rest) = delete_loop (session_delete s question) rest"

text \<open>
  The ungrouping loop assigns only \<^verbatim>\<open>group_name\<close>. The column \<^verbatim>\<open>updated_at\<close> is
  declared with \<^verbatim>\<open>onupdate=dt.datetime.utcnow\<close>, so the \<^verbatim>\<open>UPDATE\<close> that the commit
  issues for a row whose group really changes also stamps \<^verbatim>\<open>updated_at\<close> with a
  clock reading (\<open>now i\<close> for the \<open>i\<close>-th row); a row already in "Ungrouped" has
  no net change and gets no \<^verbatim>\<open>UPDATE\<close>. Everywhere else the code sets
  \<^verbatim>\<open>updated_at\<close> itself, which overrides the column default.
\<close>

fun ungroup_loop :: "store \<Rightarrow> (nat \<Rightarrow> datetime) \<Rightarrow> nat \<Rightarrow> question list \<Rightarrow> store" where
  "ungroup_loop s now i [] = s"
| "ungroup_loop s now i (question # rest) =
     ungroup_loop
       (save_question s
          (if group_name question = ''Ungrouped'' then question
           else question\<lparr>group_name := ''Ungrouped'', updated_at := now i\<rparr>))
       now (Suc i) rest"

definition delete_group :: "store \<Rightarrow> (nat \<Rightarrow> datetime) \<Rightarrow> string \<Rightarrow> bool \<Rightarrow> int \<times> store" where
  "delete_group s now group_name' delete_questions =
     (let qs = get_all_questions s None (Some group_name') True
      in (int (length qs),
          if delete_questions then delete_loop s qs else ungroup_loop s now 0 qs))"

section \<open>Statistics\<close>

record stats =
  total_questions :: int
  active_questions :: int
  inactive_questions :: int
  total_groups :: int
  questions_by_source :: "(string \<times> int) list"
  questions_by_group :: "(string \<times> int) list"

text \<open>A dict comprehension over result rows: later rows overwrite equal keys.\<close>

definition dict_of_rows :: "(string \<times> int) list \<Rightarrow> (string \<times> int) list" where
  "dict_of_rows rows = fold (\<lambda>(k, v) d. AList.update k v d) rows []"

definition get_question_stats :: "store \<Rightarrow> stats" where
  "get_question_stats s =
     (let total_questions' = int (length (questions s));
          active_questions' = int (length (filter (\<lambda>q. is_active q = True) (questions s)));
          by_source = dict_of_rows
            (group_by_count source_shorthand (filter (\<lambda>q. is_active q = True) (questions s)));
          by_group = dict_of_rows
            (group_by_count group_name (filter (\<lambda>q. is_active q = True) (questions s)));
          total_groups' = int (length by_group)
      in \<lparr>total_questions = total_questions',
          active_questions = active_questions',
          inactive_questions = total_questions' - active_questions',
          total_groups = total_groups',
          questions_by_source = by_source,
          questions_by_group = by_group\<rparr>)"

section \<open>Integrity constraints and tracked mutations\<close>

text \<open>
  What the schema enforces on every committed state: primary keys are unique and
  were handed out by the counters, and the foreign key of a history row points
  to an existing question.
\<close>

definition ref_integrity :: "store \<Rightarrow> bool" where
  "ref_integrity s = (\<forall>h \<in> set (history s). get_question_by_id s (h_question_id h) \<noteq> None)"

definition store_ok :: "store \<Rightarrow> bool" where
  "store_ok s =
     (distinct (map q_id (questions s)) \<and> distinct (map h_id (history s))
      \<and> (\<forall>q \<in> set (questions s). q_id q < next_question_id s)
      \<and> (\<forall>h \<in> set (history s). h_id h < next_history_id s)
      \<and> ref_integrity s)"

definition empty_store :: store where
  "empty_store = \<lparr>questions = [], history = [], next_question_id = 1, next_history_id = 1\<rparr>"

text \<open>
  The three tracked mutation paths, each with the arguments of its call. A
  mutation is tracked in a state when it takes the path that writes history: an
  edit of an existing question, a toggle to the other status, a restore from a
  history row of the question.
\<close>

datatype mutation =
    Edit "nat \<Rightarrow> datetime" string "string option" "string option" "string option" "string option"
  | Toggle "nat \<Rightarrow> datetime" bool string "string option"
  | Restore "nat \<Rightarrow> datetime" int string "string option"

fun apply_mutation :: "store \<Rightarrow> int \<Rightarrow> mutation \<Rightarrow> question option \<times> store" where
  "apply_mutation s qid (Edit now actor new_text new_group new_source reason) =
     update_question_with_history s now qid actor new_text new_group new_source reason"
| "apply_mutation s qid (Toggle now status actor reason) =
     toggle_active_status s now qid status actor reason"
| "apply_mutation s qid (Restore now hid actor reason) =
     restore_question_version s now qid hid actor reason"

fun tracked :: "store \<Rightarrow> int \<Rightarrow> mutation \<Rightarrow> bool" where
  "tracked s qid (Edit now actor new_text new_group new_source reason) =
     (get_question_by_id s qid \<noteq> None)"
| "tracked s qid (Toggle now status actor reason) =
     (case get_question_by_id s qid of None \<Rightarrow> False | Some q \<Rightarrow> is_active q \<noteq> status)"
| "tracked s qid (Restore now hid actor reason) =
     (case get_history_entry s hid of None \<Rightarrow> False
      | Some h \<Rightarrow> h_question_id h = qid \<and> get_question_by_id s qid \<noteq> None)"

fun apply_mutations :: "store \<Rightarrow> int \<Rightarrow> mutation list \<Rightarrow> store" where
  "apply_mutations s qid [] = s"
| "apply_mutations s qid (m # ms) = apply_mutations (snd (apply_mutation s qid m)) qid ms"

fun all_tracked :: "store \<Rightarrow> int \<Rightarrow> mutation list \<Rightarrow> bool" where
  "all_tracked s qid [] = True"
| "all_tracked s qid (m # ms) =
     (tracked s qid m \<and> all_tracked (snd (apply_mutation s qid m)) qid ms)"

text \<open>The snapshot that a tracked mutation of \<open>q\<close> writes.\<close>

definition snapshot ::
  "store \<Rightarrow> question \<Rightarrow> datetime \<Rightarrow> string \<Rightarrow> string option \<Rightarrow> history_entry" where
  "snapshot s q t actor reason =
     \<lparr>h_id = next_history_id s,
      h_question_id = q_id q,
      h_question_text = question_text q,
      h_group_name = group_name q,
      h_source_shorthand = source_shorthand q,
      h_version = version q,
      h_created_at = created_at q,
      h_created_by = created_by q,
      h_replaced_at = t,
      h_replaced_by = Some actor,
      h_reason = reason\<rparr>"

section \<open>Example states\<close>

text \<open>
  The example of the specification: question 1 is created as \<^verbatim>\<open>Q1\<close> in group
  \<^verbatim>\<open>G\<close>, then edited to \<^verbatim>\<open>Q2\<close>. Question 2 is an inactive question of
  another group.
\<close>

definition clock :: "nat \<Rightarrow> datetime" where
  "clock k = 100 + int k"

definition example_q1 :: question where
  "example_q1 = \<lparr>q_id = 1, question_text = ''Q1'', group_name = ''G'', source_shorthand = ''A'',
     version = 1, is_active = True, created_at = 10, created_by = Some ''alice'',
     updated_at = 11, updated_by = Some ''alice''\<rparr>"

definition example_q2 :: question where
  "example_q2 = \<lparr>q_id = 2, question_text = ''Other'', group_name = ''H'', source_shorthand = ''K'',
     version = 1, is_active = False, created_at = 12, created_by = None,
     updated_at = 13, updated_by = None\<rparr>"

definition example_store :: store where
  "example_store = \<lparr>questions = [example_q1, example_q2], history = [],
     next_question_id = 3, next_history_id = 1\<rparr>"

definition example_h1 :: history_entry where
  "example_h1 = \<lparr>h_id = 1, h_question_id = 1, h_question_text = ''Q1'', h_group_name = ''G'',
     h_source_shorthand = ''A'', h_version = 1, h_created_at = 10, h_created_by = Some ''alice'',
     h_replaced_at = 20, h_replaced_by = Some ''bob'', h_reason = None\<rparr>"

definition example_store2 :: store where
  "example_store2 =
     \<lparr>questions = [example_q1\<lparr>question_text := ''Q2'', version := 2, updated_at := 21,
                                updated_by := Some ''bob''\<rparr>, example_q2],
      history = [example_h1], next_question_id = 3, next_history_id = 2\<rparr>"

text \<open>An edit, a restore from the first history row and a deactivation.\<close>

definition example_mutations :: "mutation list" where
  "example_mutations =
     [Edit clock ''bob'' (Some ''Q2'') None None None,
      Restore clock 1 ''carol'' None,
      Toggle clock False ''dave'' None]"

section \<open>Formatting of integers\<close>

lemma str_of_int_examples:
  "str_of_int 0 = ''0'' \<and> str_of_int 7 = ''7'' \<and> str_of_int 42 = ''42''
   \<and> str_of_int 1305 = ''1305'' \<and> str_of_int (- 12) = ''-12''"
  by code_simp

section \<open>Lookups after a write\<close>

lemma find_map_replace:
  "find (\<lambda>r. q_id r = i) (map (\<lambda>r. if q_id r = q_id q then q else r) rows) =
     (if i = q_id q then (if find (\<lambda>r. q_id r = i) rows = None then None else Some q)
      else find (\<lambda>r. q_id r = i) rows)"
  by (induction rows) auto

lemma get_by_id_save:
  "get_question_by_id (save_question s q) i =
     (if i = q_id q then (if get_question_by_id s i = None then None else Some q)
      else get_question_by_id s i)"
  unfolding get_question_by_id_def save_question_def
  by (simp add: find_map_replace)

lemma get_by_id_add_history:
  "get_question_by_id (add_history s h) i = get_question_by_id s i"
  by (simp add: get_question_by_id_def add_history_def)

lemma get_by_id_Some_id: "get_question_by_id s i = Some q \<Longrightarrow> q_id q = i"
  unfolding get_question_by_id_def by (auto simp: find_Some_iff)

lemma get_by_id_Some_mem: "get_question_by_id s i = Some q \<Longrightarrow> q \<in> set (questions s)"
  unfolding get_question_by_id_def by (auto simp: find_Some_iff)

lemma get_by_id_None_iff:
  "get_question_by_id s i = None \<longleftrightarrow> i \<notin> q_id ` set (questions s)"
  unfolding get_question_by_id_def by (auto simp: find_None_iff)

lemma history_save: "history (save_question s q) = history s"
  by (simp add: save_question_def)

lemma history_add_history:
  "history (add_history s h) = history s @ [h\<lparr>h_id := next_history_id s\<rparr>]"
  by (simp add: add_history_def)

lemma get_history_entry_Some_mem: "get_history_entry s i = Some h \<Longrightarrow> h \<in> set (history s)"
  unfolding get_history_entry_def by (auto simp: find_Some_iff)

section \<open>The versioned update\<close>

lemma update_found:
  assumes "get_question_by_id s qid = Some q"
  shows "update_question_with_history s now qid actor new_text new_group new_source reason =
     (Some (q\<lparr>question_text := (case new_text of None \<Rightarrow> question_text q | Some v \<Rightarrow> v),
              group_name := (case new_group of None \<Rightarrow> group_name q | Some v \<Rightarrow> v),
              source_shorthand := (case new_source of None \<Rightarrow> source_shorthand q | Some v \<Rightarrow> v),
              version := version q + 1,
              updated_at := now 1,
              updated_by := Some actor\<rparr>),
      save_question (add_history s (snapshot s q (now 0) actor reason))
        (q\<lparr>question_text := (case new_text of None \<Rightarrow> question_text q | Some v \<Rightarrow> v),
           group_name := (case new_group of None \<Rightarrow> group_name q | Some v \<Rightarrow> v),
           source_shorthand := (case new_source of None \<Rightarrow> source_shorthand q | Some v \<Rightarrow> v),
           version := version q + 1,
           updated_at := now 1,
           updated_by := Some actor\<rparr>))"
  using assms
  by (cases new_text; cases new_group; cases new_source)
     (simp_all add: update_question_with_history_def Let_def snapshot_def add_history_def)

lemma update_missing:
  "get_question_by_id s qid = None \<Longrightarrow>
     update_question_with_history s now qid actor new_text new_group new_source reason = (None, s)"
  by (simp add: update_question_with_history_def)

lemma snapshot_added:
  "history (save_question (add_history s (snapshot s q t actor reason)) q') =
     history s @ [snapshot s q t actor reason]"
  by (simp add: history_save history_add_history snapshot_def)

text \<open>
  Claim C1. On an existing question, \<open>update_question_with_history\<close> appends one
  history row holding the question's text, group, source, version and
  created_at/created_by from before the change, with replaced_by the acting user
  and the given reason; the question it returns and stores differs from the old
  one exactly in the fields that were given, in the version (one more) and in
  updated_at/updated_by. No other question changes. With no question of that id
  it returns None and leaves the state as it was.
\<close>

theorem update_question_with_history_correct:
  "(get_question_by_id s qid = None \<longrightarrow>
      update_question_with_history s now qid actor new_text new_group new_source reason = (None, s))
   \<and> (\<forall>q. get_question_by_id s qid = Some q \<longrightarrow>
        (\<exists>q' s'. update_question_with_history s now qid actor new_text new_group new_source reason
                    = (Some q', s')
           \<and> history s' = history s @
                 [\<lparr>h_id = next_history_id s,
                   h_question_id = qid,
                   h_question_text = question_text q,
                   h_group_name = group_name q,
                   h_source_shorthand = source_shorthand q,
                   h_version = version q,
                   h_created_at = created_at q,
                   h_created_by = created_by q,
                   h_replaced_at = now 0,
                   h_replaced_by = Some actor,
                   h_reason = reason\<rparr>]
           \<and> q' = q\<lparr>question_text := (case new_text of None \<Rightarrow> question_text q | Some v \<Rightarrow> v),
                     group_name := (case new_group of None \<Rightarrow> group_name q | Some v \<Rightarrow> v),
                     source_shorthand := (case new_source of None \<Rightarrow> source_shorthand q | Some v \<Rightarrow> v),
                     version := version q + 1,
                     updated_at := now 1,
                     updated_by := Some actor\<rparr>
           \<and> get_question_by_id s' qid = Some q'
           \<and> (\<forall>i. i \<noteq> qid \<longrightarrow> get_question_by_id s' i = get_question_by_id s i)))"
proof (intro conjI allI impI)
  assume "get_question_by_id s qid = None"
  then show "update_question_with_history s now qid actor new_text new_group new_source reason = (None, s)"
    by (rule update_missing)
next
  fix q assume q: "get_question_by_id s qid = Some q"
  have qid: "q_id q = qid" using q by (rule get_by_id_Some_id)
  let ?q' = "q\<lparr>question_text := (case new_text of None \<Rightarrow> question_text q | Some v \<Rightarrow> v),
               group_name := (case new_group of None \<Rightarrow> group_name q | Some v \<Rightarrow> v),
               source_shorthand := (case new_source of None \<Rightarrow> source_shorthand q | Some v \<Rightarrow> v),
               version := version q + 1,
               updated_at := now 1,
               updated_by := Some actor\<rparr>"
  let ?s' = "save_question (add_history s (snapshot s q (now 0) actor reason)) ?q'"
  have run: "update_question_with_history s now qid actor new_text new_group new_source reason
               = (Some ?q', ?s')"
    using q by (rule update_found)
  have hist: "history ?s' = history s @ [snapshot s q (now 0) actor reason]"
    by (rule snapshot_added)
  have live: "get_question_by_id ?s' qid = Some ?q'"
    using q qid by (simp add: get_by_id_save get_by_id_add_history)
  have others: "\<forall>i. i \<noteq> qid \<longrightarrow> get_question_by_id ?s' i = get_question_by_id s i"
    using qid by (simp add: get_by_id_save get_by_id_add_history)
  show "\<exists>q' s'. update_question_with_history s now qid actor new_text new_group new_source reason
                    = (Some q', s')
           \<and> history s' = history s @
                 [\<lparr>h_id = next_history_id s,
                   h_question_id = qid,
                   h_question_text = question_text q,
                   h_group_name = group_name q,
                   h_source_shorthand = source_shorthand q,
                   h_version = version q,
                   h_created_at = created_at q,
                   h_created_by = created_by q,
                   h_replaced_at = now 0,
                   h_replaced_by = Some actor,
                   h_reason = reason\<rparr>]
           \<and> q' = ?q'
           \<and> get_question_by_id s' qid = Some q'
           \<and> (\<forall>i. i \<noteq> qid \<longrightarrow> get_question_by_id s' i = get_question_by_id s i)"
    using run hist live others qid by (simp add: snapshot_def)
qed

theorem update_question_with_history_correct_witness:
  "get_question_by_id example_store 1 = Some example_q1
   \<and> get_question_by_id example_store 7 = None
   \<and> update_question_with_history example_store clock 7 ''bob'' (Some ''Q2'') None None None
        = (None, example_store)
   \<and> (\<exists>q' s'. update_question_with_history example_store clock 1 ''bob'' (Some ''Q2'') None None None
                  = (Some q', s')
          \<and> map h_version (history s') = [1]
          \<and> map h_question_text (history s') = [''Q1'']
          \<and> question_text q' = ''Q2'' \<and> group_name q' = ''G'' \<and> version q' = 2
          \<and> get_question_by_id s' 2 = Some example_q2)"
proof -
  have a: "get_question_by_id example_store 1 = Some example_q1"
    by (simp add: get_question_by_id_def example_store_def example_q1_def)
  have b: "get_question_by_id example_store 7 = None"
    by (simp add: get_question_by_id_def example_store_def example_q1_def example_q2_def)
  have c: "get_question_by_id example_store 2 = Some example_q2"
    by (simp add: get_question_by_id_def example_store_def example_q1_def example_q2_def)
  note thm1 = update_question_with_history_correct
    [of example_store 7 clock "''bob''" "Some ''Q2''" None None None]
  note thm2 = update_question_with_history_correct
    [of example_store 1 clock "''bob''" "Some ''Q2''" None None None]
  from thm1 b have d: "update_question_with_history example_store clock 7 ''bob'' (Some ''Q2'') None None None
        = (None, example_store)" by blast
  from thm2 a obtain q' s' where
    r: "update_question_with_history example_store clock 1 ''bob'' (Some ''Q2'') None None None = (Some q', s')"
    and h: "history s' = history example_store @
                 [\<lparr>h_id = next_history_id example_store,
                   h_question_id = 1,
                   h_question_text = question_text example_q1,
                   h_group_name = group_name example_q1,
                   h_source_shorthand = source_shorthand example_q1,
                   h_version = version example_q1,
                   h_created_at = created_at example_q1,
                   h_created_by = created_by example_q1,
                   h_replaced_at = clock 0,
                   h_replaced_by = Some ''bob'',
                   h_reason = None\<rparr>]"
    and q': "q' = example_q1\<lparr>question_text := (case Some ''Q2'' of None \<Rightarrow> question_text example_q1 | Some v \<Rightarrow> v),
                     group_name := (case None of None \<Rightarrow> group_name example_q1 | Some v \<Rightarrow> v),
                     source_shorthand := (case None of None \<Rightarrow> source_shorthand example_q1 | Some v \<Rightarrow> v),
                     version := version example_q1 + 1,
                     updated_at := clock 1,
                     updated_by := Some ''bob''\<rparr>"
    and o: "\<forall>i. i \<noteq> 1 \<longrightarrow> get_question_by_id s' i = get_question_by_id example_store i"
    by blast
  have "map h_version (history s') = [1]" "map h_question_text (history s') = [''Q1'']"
    using h by (simp_all add: example_store_def example_q1_def)
  moreover have "question_text q' = ''Q2''" "group_name q' = ''G''" "version q' = 2"
    using q' by (simp_all add: example_q1_def)
  moreover have "get_question_by_id s' 2 = Some example_q2" using o c by simp
  ultimately show ?thesis using a b d r by simp
qed

text \<open>
  Claim C5. A call of \<open>toggle_active_status\<close> with the status the question
  already has returns the question as it is and leaves the whole state (both
  tables and both counters) untouched: no history row, same version, same
  updated_at/updated_by.
\<close>

theorem toggle_same_status_noop:
  "get_question_by_id s qid = Some q \<Longrightarrow> is_active q = status \<Longrightarrow>
     toggle_active_status s now qid status actor reason = (Some q, s)"
  by (simp add: toggle_active_status_def)

theorem toggle_same_status_noop_witness:
  "get_question_by_id example_store 2 = Some example_q2 \<and> is_active example_q2 = False
   \<and> toggle_active_status example_store clock 2 False ''bob'' (Some ''again'')
        = (Some example_q2, example_store)"
proof -
  have a: "get_question_by_id example_store 2 = Some example_q2"
    by (simp add: get_question_by_id_def example_store_def example_q1_def example_q2_def)
  have b: "is_active example_q2 = False"
    by (simp add: example_q2_def)
  show ?thesis
    using a b toggle_same_status_noop [OF a b, of clock "''bob''" "Some ''again''"] by simp
qed

text \<open>
  Claim C6. An update that gives none of the three content fields still takes
  the full path: it appends the snapshot of the (unchanged) content under the
  current version, and the stored question has its version raised by one and
  updated_at/updated_by set, everything else as before.
\<close>

theorem update_without_changes_still_versions:
  "get_question_by_id s qid = Some q \<Longrightarrow>
     (\<exists>s'. update_question_with_history s now qid actor None None None reason
              = (Some (q\<lparr>version := version q + 1, updated_at := now 1, updated_by := Some actor\<rparr>), s')
        \<and> history s' = history s @ [snapshot s q (now 0) actor reason]
        \<and> h_question_text (snapshot s q (now 0) actor reason) = question_text q
        \<and> h_group_name (snapshot s q (now 0) actor reason) = group_name q
        \<and> h_source_shorthand (snapshot s q (now 0) actor reason) = source_shorthand q
        \<and> h_version (snapshot s q (now 0) actor reason) = version q
        \<and> next_history_id s' = next_history_id s + 1
        \<and> get_question_by_id s' qid
             = Some (q\<lparr>version := version q + 1, updated_at := now 1, updated_by := Some actor\<rparr>))"
proof -
  assume q: "get_question_by_id s qid = Some q"
  have qid: "q_id q = qid" using q by (rule get_by_id_Some_id)
  let ?q' = "q\<lparr>version := version q + 1, updated_at := now 1, updated_by := Some actor\<rparr>"
  let ?s' = "save_question (add_history s (snapshot s q (now 0) actor reason)) ?q'"
  have run: "update_question_with_history s now qid actor None None None reason = (Some ?q', ?s')"
    using update_found [OF q, of now actor None None None reason] by simp
  have hist: "history ?s' = history s @ [snapshot s q (now 0) actor reason]"
    by (rule snapshot_added)
  have nxt: "next_history_id ?s' = next_history_id s + 1"
    by (simp add: save_question_def add_history_def)
  have live: "get_question_by_id ?s' qid = Some ?q'"
    using q qid by (simp add: get_by_id_save get_by_id_add_history)
  show ?thesis
    using run hist nxt live by (simp add: snapshot_def)
qed

theorem update_without_changes_still_versions_witness:
  "get_question_by_id example_store 1 = Some example_q1
   \<and> (\<exists>s'. update_question_with_history example_store clock 1 ''bob'' None None None None
              = (Some (example_q1\<lparr>version := 2, updated_at := 101, updated_by := Some ''bob''\<rparr>), s')
        \<and> map h_version (history s') = [1] \<and> map h_question_text (history s') = [''Q1''])"
proof -
  have a: "get_question_by_id example_store 1 = Some example_q1"
    by (simp add: get_question_by_id_def example_store_def example_q1_def)
  have v: "version example_q1 + 1 = 2" "clock 1 = 101" "history example_store = []"
    by (simp_all add: example_q1_def clock_def example_store_def)
  from update_without_changes_still_versions [OF a, of clock "''bob''" None]
  obtain s' where
    r: "update_question_with_history example_store clock 1 ''bob'' None None None None
              = (Some (example_q1\<lparr>version := version example_q1 + 1, updated_at := clock 1,
                                   updated_by := Some ''bob''\<rparr>), s')"
    and h: "history s' = history example_store @ [snapshot example_store example_q1 (clock 0) ''bob'' None]"
    by blast
  have "map h_version (history s') = [1]" "map h_question_text (history s') = [''Q1'']"
    using h by (simp_all add: snapshot_def example_store_def example_q1_def)
  then show ?thesis using a r v by simp
qed

lemma ref_integrityD:
  "ref_integrity s \<Longrightarrow> get_history_entry s hid = Some h \<Longrightarrow>
     get_question_by_id s (h_question_id h) \<noteq> None"
  unfolding ref_integrity_def by (blast dest: get_history_entry_Some_mem)

lemma restore_no_entry:
  "get_history_entry s hid = None \<Longrightarrow>
     restore_question_version s now qid hid actor reason = (None, s)"
  by (simp add: restore_question_version_def)

lemma restore_other_question:
  "get_history_entry s hid = Some h \<Longrightarrow> h_question_id h \<noteq> qid \<Longrightarrow>
     restore_question_version s now qid hid actor reason = (None, s)"
  by (simp add: restore_question_version_def)

lemma restore_delegates:
  "get_history_entry s hid = Some h \<Longrightarrow> h_question_id h = qid \<Longrightarrow>
     restore_question_version s now qid hid actor reason =
       update_question_with_history s now qid actor
         (Some (h_question_text h)) (Some (h_group_name h)) (Some (h_source_shorthand h))
         (Some (case reason of None \<Rightarrow> ''Restored to version '' @ str_of_int (h_version h)
                | Some r \<Rightarrow> if r = [] then ''Restored to version '' @ str_of_int (h_version h) else r))"
  by (cases reason) (simp_all add: restore_question_version_def Let_def)

lemma restore_none_unchanged:
  "fst (restore_question_version s now qid hid actor reason) = None \<Longrightarrow>
     snd (restore_question_version s now qid hid actor reason) = s"
proof (cases "get_history_entry s hid")
  case None
  then show ?thesis by (simp add: restore_no_entry)
next
  case (Some h)
  assume n: "fst (restore_question_version s now qid hid actor reason) = None"
  show ?thesis
  proof (cases "h_question_id h = qid")
    case False
    with Some show ?thesis by (simp add: restore_other_question)
  next
    case True
    show ?thesis
    proof (cases "get_question_by_id s qid")
      case None
      then show ?thesis using Some True by (simp add: restore_delegates update_missing)
    next
      case (Some q)
      then show ?thesis using n \<open>get_history_entry s hid = Some h\<close> True
        by (simp add: restore_delegates update_found)
    qed
  qed
qed



text \<open>
  Claim C4. \<open>restore_question_version\<close> returns None, with the state as it was,
  when no history row has the given id and when the row found belongs to another
  question. Whenever it returns None the state is unchanged. In a state that
  satisfies the foreign key of the history table these are the only cases in
  which it returns None.
\<close>

theorem restore_not_found_exactly:
  "(get_history_entry s hid = None \<longrightarrow>
      restore_question_version s now qid hid actor reason = (None, s))
   \<and> (\<forall>h. get_history_entry s hid = Some h \<and> h_question_id h \<noteq> qid \<longrightarrow>
        restore_question_version s now qid hid actor reason = (None, s))
   \<and> (fst (restore_question_version s now qid hid actor reason) = None \<longrightarrow>
        snd (restore_question_version s now qid hid actor reason) = s)
   \<and> (ref_integrity s \<longrightarrow>
        (fst (restore_question_version s now qid hid actor reason) = None
         \<longleftrightarrow> (get_history_entry s hid = None
              \<or> (\<exists>h. get_history_entry s hid = Some h \<and> h_question_id h \<noteq> qid))))"
proof (intro conjI allI impI)
  assume "get_history_entry s hid = None"
  then show "restore_question_version s now qid hid actor reason = (None, s)"
    by (rule restore_no_entry)
next
  fix h assume "get_history_entry s hid = Some h \<and> h_question_id h \<noteq> qid"
  then show "restore_question_version s now qid hid actor reason = (None, s)"
    by (simp add: restore_other_question)
next
  assume "fst (restore_question_version s now qid hid actor reason) = None"
  then show "snd (restore_question_version s now qid hid actor reason) = s"
    by (rule restore_none_unchanged)
next
  assume ri: "ref_integrity s"
  show "fst (restore_question_version s now qid hid actor reason) = None
         \<longleftrightarrow> (get_history_entry s hid = None
              \<or> (\<exists>h. get_history_entry s hid = Some h \<and> h_question_id h \<noteq> qid))"
  proof (cases "get_history_entry s hid")
    case None
    then show ?thesis by (simp add: restore_no_entry)
  next
    case (Some h)
    show ?thesis
    proof (cases "h_question_id h = qid")
      case False
      with Some show ?thesis by (simp add: restore_other_question)
    next
      case True
      from ref_integrityD [OF ri Some] True obtain q where q: "get_question_by_id s qid = Some q"
        by auto
      show ?thesis using Some True q by (simp add: restore_delegates update_found)
    qed
  qed
qed

theorem restore_not_found_exactly_witness:
  "ref_integrity example_store2
   \<and> get_history_entry example_store2 9 = None
   \<and> restore_question_version example_store2 clock 1 9 ''carol'' None = (None, example_store2)
   \<and> get_history_entry example_store2 1 = Some example_h1 \<and> h_question_id example_h1 \<noteq> 2
   \<and> restore_question_version example_store2 clock 2 1 ''carol'' None = (None, example_store2)
   \<and> fst (restore_question_version example_store2 clock 1 1 ''carol'' None) \<noteq> None"
proof -
  have ri: "ref_integrity example_store2"
    by (simp add: ref_integrity_def get_question_by_id_def example_store2_def example_h1_def
        example_q1_def)
  have n: "get_history_entry example_store2 9 = None"
    by (simp add: get_history_entry_def example_store2_def example_h1_def)
  have b: "get_history_entry example_store2 1 = Some example_h1"
    by (simp add: get_history_entry_def example_store2_def example_h1_def)
  have c: "h_question_id example_h1 \<noteq> 2" "h_question_id example_h1 = 1"
    by (simp_all add: example_h1_def)
  note t9 = restore_not_found_exactly [of example_store2 9 clock 1 "''carol''" None]
  note t2 = restore_not_found_exactly [of example_store2 1 clock 2 "''carol''" None]
  note t1 = restore_not_found_exactly [of example_store2 1 clock 1 "''carol''" None]
  have r9: "restore_question_version example_store2 clock 1 9 ''carol'' None = (None, example_store2)"
    using t9 n by blast
  have r2: "restore_question_version example_store2 clock 2 1 ''carol'' None = (None, example_store2)"
    using t2 b c(1) by blast
  have r1: "fst (restore_question_version example_store2 clock 1 1 ''carol'' None) \<noteq> None"
    using t1 ri b c(2) by simp
  show ?thesis using ri n b c(1) r9 r2 r1 by simp
qed

text \<open>
  Claim C10. In a state that satisfies the foreign key of the history table
  (every history row names an existing question), a restore that finds a history
  row of the given question reaches the update with an existing question \<open>q\<close>:
  the lookup in \<open>update_question_with_history\<close> succeeds, so the call never
  returns None. It returns the updated question -- \<open>q\<close> with the three content
  fields of the history row, version one higher, and updated_at/updated_by set
  -- which is also the row stored under the id afterwards, and it appends the
  snapshot of \<open>q\<close> to the history.
\<close>

theorem restore_of_own_entry_succeeds:
  "ref_integrity s \<Longrightarrow> get_history_entry s hid = Some h \<Longrightarrow> h_question_id h = qid \<Longrightarrow>
     (\<exists>q s'. get_question_by_id s qid = Some q
        \<and> restore_question_version s now qid hid actor reason
            = (Some (q\<lparr>question_text := h_question_text h,
                       group_name := h_group_name h,
                       source_shorthand := h_source_shorthand h,
                       version := version q + 1,
                       updated_at := now 1,
                       updated_by := Some actor\<rparr>), s')
        \<and> fst (restore_question_version s now qid hid actor reason) \<noteq> None
        \<and> get_question_by_id s' qid
            = Some (q\<lparr>question_text := h_question_text h,
                      group_name := h_group_name h,
                      source_shorthand := h_source_shorthand h,
                      version := version q + 1,
                      updated_at := now 1,
                      updated_by := Some actor\<rparr>)
        \<and> history s' = history s @
             [snapshot s q (now 0) actor
                (Some (case reason of
                         None \<Rightarrow> ''Restored to version '' @ str_of_int (h_version h)
                       | Some r \<Rightarrow> if r = [] then ''Restored to version '' @ str_of_int (h_version h)
                                  else r))])"
proof -
  assume ri: "ref_integrity s" and h: "get_history_entry s hid = Some h"
    and m: "h_question_id h = qid"
  from ref_integrityD [OF ri h] m obtain q where q: "get_question_by_id s qid = Some q"
    by auto
  have qid: "q_id q = qid" using q by (rule get_by_id_Some_id)
  let ?r = "Some (case reason of
                    None \<Rightarrow> ''Restored to version '' @ str_of_int (h_version h)
                  | Some r \<Rightarrow> if r = [] then ''Restored to version '' @ str_of_int (h_version h)
                             else r)"
  let ?q' = "q\<lparr>question_text := h_question_text h,
               group_name := h_group_name h,
               source_shorthand := h_source_shorthand h,
               version := version q + 1,
               updated_at := now 1,
               updated_by := Some actor\<rparr>"
  let ?s' = "save_question (add_history s (snapshot s q (now 0) actor ?r)) ?q'"
  have run: "restore_question_version s now qid hid actor reason = (Some ?q', ?s')"
    using update_found [OF q, of now actor "Some (h_question_text h)" "Some (h_group_name h)"
        "Some (h_source_shorthand h)" ?r]
    by (simp add: restore_delegates [OF h m])
  have some: "fst (restore_question_version s now qid hid actor reason) \<noteq> None"
    using run by simp
  have hist: "history ?s' = history s @ [snapshot s q (now 0) actor ?r]"
    by (rule snapshot_added)
  have live: "get_question_by_id ?s' qid = Some ?q'"
    using q qid by (simp add: get_by_id_save get_by_id_add_history)
  show ?thesis using q run some hist live by blast
qed

theorem restore_of_own_entry_succeeds_witness:
  "ref_integrity example_store2 \<and> get_history_entry example_store2 1 = Some example_h1
   \<and> h_question_id example_h1 = 1
   \<and> (\<exists>q' s'. restore_question_version example_store2 clock 1 1 ''carol'' (Some ''undo'')
                  = (Some q', s')
          \<and> question_text q' = ''Q1'' \<and> group_name q' = ''G'' \<and> source_shorthand q' = ''A''
          \<and> version q' = 3 \<and> updated_at q' = 101 \<and> updated_by q' = Some ''carol''
          \<and> get_question_by_id s' 1 = Some q'
          \<and> map h_version (history s') = [1, 2]
          \<and> map h_reason (history s') = [None, Some ''undo''])"
proof -
  let ?q = "example_q1\<lparr>question_text := ''Q2'', version := 2, updated_at := 21,
                        updated_by := Some ''bob''\<rparr>"
  have ri: "ref_integrity example_store2"
    by (simp add: ref_integrity_def get_question_by_id_def example_store2_def example_h1_def
        example_q1_def)
  have a: "get_question_by_id example_store2 1 = Some ?q"
    by (simp add: get_question_by_id_def example_store2_def example_q1_def)
  have b: "get_history_entry example_store2 1 = Some example_h1"
    by (simp add: get_history_entry_def example_store2_def example_h1_def)
  have c: "h_question_id example_h1 = 1"
    by (simp add: example_h1_def)
  from restore_of_own_entry_succeeds [OF ri b c, of clock "''carol''" "Some ''undo''"]
  obtain q s' where
    q: "get_question_by_id example_store2 1 = Some q"
    and r: "restore_question_version example_store2 clock 1 1 ''carol'' (Some ''undo'')
            = (Some (q\<lparr>question_text := h_question_text example_h1,
                       group_name := h_group_name example_h1,
                       source_shorthand := h_source_shorthand example_h1,
                       version := version q + 1,
                       updated_at := clock 1,
                       updated_by := Some ''carol''\<rparr>), s')"
    and l: "get_question_by_id s' 1
            = Some (q\<lparr>question_text := h_question_text example_h1,
                      group_name := h_group_name example_h1,
                      source_shorthand := h_source_shorthand example_h1,
                      version := version q + 1,
                      updated_at := clock 1,
                      updated_by := Some ''carol''\<rparr>)"
    and hs: "history s' = history example_store2 @
             [snapshot example_store2 q (clock 0) ''carol''
                (Some (case Some ''undo'' of
                         None \<Rightarrow> ''Restored to version '' @ str_of_int (h_version example_h1)
                       | Some r \<Rightarrow> if r = [] then ''Restored to version '' @ str_of_int (h_version example_h1)
                                  else r))]"
    by blast
  have qq: "q = ?q" using q a by simp
  have f: "h_question_text example_h1 = ''Q1''" "h_group_name example_h1 = ''G''"
    "h_source_shorthand example_h1 = ''A''" "version ?q + 1 = 3" "clock 1 = 101"
    by (simp_all add: example_h1_def example_q1_def clock_def)
  have hv: "map h_version (history s') = [1, 2]"
    "map h_reason (history s') = [None, Some ''undo'']"
    using hs qq by (simp_all add: snapshot_def example_store2_def example_h1_def example_q1_def)
  show ?thesis using ri b c r l hv f unfolding qq by simp
qed

section \<open>Properties of the statistics\<close>

lemma fold_update_keys:
  "fst ` set (fold (\<lambda>(k, v) d. AList.update k v d) rows d) = fst ` set rows \<union> fst ` set d"
proof (induction rows arbitrary: d)
  case Nil
  show ?case by simp
next
  case (Cons r rows)
  obtain k v where r: "r = (k, v)" by (cases r)
  have "fst ` set (fold (\<lambda>(k, v) d. AList.update k v d) (r # rows) d)
          = fst ` set rows \<union> fst ` set (AList.update k v d)"
    using Cons.IH [of "AList.update k v d"] r by simp
  also have "\<dots> = fst ` set (r # rows) \<union> fst ` set d"
    unfolding dom_update r by auto
  finally show ?case .
qed

lemma fold_update_distinct:
  "distinct (map fst d) \<Longrightarrow> distinct (map fst (fold (\<lambda>(k, v) d. AList.update k v d) rows d))"
  by (induction rows arbitrary: d) (auto simp: distinct_update)

lemma dict_of_rows_keys: "fst ` set (dict_of_rows rows) = fst ` set rows"
  by (simp add: dict_of_rows_def fold_update_keys)

lemma dict_of_rows_distinct: "distinct (map fst (dict_of_rows rows))"
  by (simp add: dict_of_rows_def fold_update_distinct)

lemma length_dict_of_rows: "length (dict_of_rows rows) = card (fst ` set rows)"
proof -
  have "length (dict_of_rows rows) = length (map fst (dict_of_rows rows))" by simp
  also have "\<dots> = card (set (map fst (dict_of_rows rows)))"
    using dict_of_rows_distinct by (simp only: distinct_card)
  also have "\<dots> = card (fst ` set rows)" by (simp add: dict_of_rows_keys)
  finally show ?thesis .
qed

lemma group_by_count_keys: "fst ` set (group_by_count key rows) = key ` set rows"
  by (force simp: group_by_count_def)

lemma length_filter_split:
  "int (length xs) - int (length (filter P xs)) = int (length (filter (\<lambda>x. \<not> P x) xs))"
  using sum_length_filter_compl [of P xs] by simp

text \<open>
  Claim C8. In the statistics of any state, the inactive count is the total minus
  the active count (and is the number of inactive questions), and total_groups is
  the number of keys of the group-name mapping, which is the number of distinct
  group names among the active questions.
\<close>

theorem get_question_stats_relations:
  "inactive_questions (get_question_stats s)
     = total_questions (get_question_stats s) - active_questions (get_question_stats s)
   \<and> total_questions (get_question_stats s) = int (length (questions s))
   \<and> active_questions (get_question_stats s) = int (length (filter is_active (questions s)))
   \<and> inactive_questions (get_question_stats s)
       = int (length (filter (\<lambda>q. \<not> is_active q) (questions s)))
   \<and> total_groups (get_question_stats s) = int (length (questions_by_group (get_question_stats s)))
   \<and> distinct (map fst (questions_by_group (get_question_stats s)))
   \<and> fst ` set (questions_by_group (get_question_stats s))
       = group_name ` {q. q \<in> set (questions s) \<and> is_active q}
   \<and> total_groups (get_question_stats s)
       = int (card (group_name ` {q. q \<in> set (questions s) \<and> is_active q}))"
proof -
  have keys: "fst ` set (group_by_count group_name (filter is_active (questions s)))
                = group_name ` {q. q \<in> set (questions s) \<and> is_active q}"
    by (simp add: group_by_count_keys)
  show ?thesis
    unfolding get_question_stats_def Let_def
    by (simp add: length_filter_split dict_of_rows_distinct dict_of_rows_keys
        length_dict_of_rows keys)
qed

theorem get_question_stats_relations_witness:
  "total_questions (get_question_stats example_store) = 2
   \<and> active_questions (get_question_stats example_store) = 1
   \<and> inactive_questions (get_question_stats example_store) = 1
   \<and> total_groups (get_question_stats example_store) = 1
   \<and> questions_by_group (get_question_stats example_store) = [(''G'', 1)]"
proof -
  have q: "questions example_store = [example_q1, example_q2]"
    "is_active example_q1" "\<not> is_active example_q2" "group_name example_q1 = ''G''"
    by (simp_all add: example_store_def example_q1_def example_q2_def)
  note rel = get_question_stats_relations [of example_store]
  have t: "total_questions (get_question_stats example_store) = 2"
    and a: "active_questions (get_question_stats example_store) = 1"
    using rel q by simp_all
  have i: "inactive_questions (get_question_stats example_store) = 1"
    using rel t a by simp
  have g: "questions_by_group (get_question_stats example_store) = [(''G'', 1)]"
    by (simp add: get_question_stats_def Let_def dict_of_rows_def group_by_count_def q)
  have n: "total_groups (get_question_stats example_store) = 1"
    using rel g by simp
  show ?thesis using t a i n g by simp
qed

section \<open>Properties of the group operations\<close>

lemma get_all_questions_group:
  "g \<noteq> [] \<Longrightarrow> get_all_questions s None (Some g) True
     = sort_key (\<lambda>q. (group_name q, q_id q)) (filter (\<lambda>q. group_name q = g) (questions s))"
  by (simp add: get_all_questions_def)

lemma get_all_questions_empty_group:
  "get_all_questions s None (Some []) True = sort_key (\<lambda>q. (group_name q, q_id q)) (questions s)"
  by (simp add: get_all_questions_def)

lemma rename_loop_history:
  "history (rename_loop s now new_name actor i qs) = history s"
  by (induction qs arbitrary: s i) (simp_all add: history_save)

lemma rename_loop_counters:
  "next_question_id (rename_loop s now new_name actor i qs) = next_question_id s
   \<and> next_history_id (rename_loop s now new_name actor i qs) = next_history_id s"
  by (induction qs arbitrary: s i) (simp_all add: save_question_def)

lemma save_question_ids:
  "map q_id (questions (save_question s q)) = map q_id (questions s)"
  by (simp add: save_question_def comp_def)

lemma rename_loop_ids:
  "map q_id (questions (rename_loop s now new_name actor i qs)) = map q_id (questions s)"
  by (induction qs arbitrary: s i) (simp_all add: save_question_ids)

lemma rename_loop_untouched:
  "j \<notin> q_id ` set qs \<Longrightarrow>
     get_question_by_id (rename_loop s now new_name actor i qs) j = get_question_by_id s j"
  by (induction qs arbitrary: s i) (auto simp: get_by_id_save)

lemma rename_loop_touched:
  "distinct (map q_id qs) \<Longrightarrow> k < length qs \<Longrightarrow> get_question_by_id s (q_id (qs ! k)) \<noteq> None \<Longrightarrow>
     get_question_by_id (rename_loop s now new_name actor i qs) (q_id (qs ! k))
       = Some ((qs ! k)\<lparr>group_name := new_name, updated_at := now (i + k), updated_by := Some actor\<rparr>)"
proof (induction qs arbitrary: s i k)
  case Nil
  then show ?case by simp
next
  case (Cons q qs)
  let ?s1 = "save_question s (q\<lparr>group_name := new_name, updated_at := now i, updated_by := Some actor\<rparr>)"
  show ?case
  proof (cases k)
    case 0
    have "q_id q \<notin> q_id ` set qs" using Cons.prems(1) by auto
    then have "get_question_by_id (rename_loop ?s1 now new_name actor (Suc i) qs) (q_id q)
                 = get_question_by_id ?s1 (q_id q)"
      by (rule rename_loop_untouched)
    then show ?thesis using 0 Cons.prems(3) by (simp add: get_by_id_save)
  next
    case (Suc k')
    have d: "distinct (map q_id qs)" and k': "k' < length qs"
      using Cons.prems(1,2) Suc by simp_all
    have "qs ! k' \<in> set qs" using k' by simp
    moreover have "q_id q \<notin> q_id ` set qs" using Cons.prems(1) by simp
    ultimately have ne: "q_id (qs ! k') \<noteq> q_id q" by (metis imageI)
    have ex: "get_question_by_id ?s1 (q_id (qs ! k')) \<noteq> None"
      using Cons.prems(3) Suc ne by (simp add: get_by_id_save)
    show ?thesis
      using Cons.IH [OF d k' ex, of "Suc i"] Suc by simp
  qed
qed

lemma get_by_id_nth:
  assumes "distinct (map q_id (questions s))" and "j < length (questions s)"
  shows "get_question_by_id s (q_id (questions s ! j)) = Some (questions s ! j)"
proof -
  have "\<And>i. i < length (questions s) \<Longrightarrow> q_id (questions s ! i) = q_id (questions s ! j) \<Longrightarrow> i = j"
  proof -
    fix i assume i: "i < length (questions s)" and e: "q_id (questions s ! i) = q_id (questions s ! j)"
    have "map q_id (questions s) ! i = map q_id (questions s) ! j" using i assms(2) e by simp
    moreover have "i < length (map q_id (questions s))" "j < length (map q_id (questions s))"
      using i assms(2) by simp_all
    ultimately show "i = j" using assms(1) nth_eq_iff_index_eq by blast
  qed
  then have "\<forall>i<j. q_id (questions s ! i) \<noteq> q_id (questions s ! j)"
    using assms(2) by (metis less_trans nat_neq_iff)
  then show ?thesis
    unfolding get_question_by_id_def find_Some_iff using assms(2) by (intro exI [of _ j]) simp
qed

lemma same_id_same_row:
  assumes "distinct (map q_id rows)" "a \<in> set rows" "b \<in> set rows" "q_id a = q_id b"
  shows "a = b"
  using assms by (meson distinct_map inj_onD)

lemma sort_key_distinct_ids:
  "distinct (map q_id rows) \<Longrightarrow> distinct (map q_id (sort_key f (filter P rows)))"
  by (auto simp: distinct_map intro: inj_on_subset distinct_map_filter)

lemma rename_group_row:
  fixes s :: store and now :: "nat \<Rightarrow> datetime" and old_name new_name actor :: string
  defines "s' \<equiv> snd (rename_group s now old_name new_name actor)"
  defines "n \<equiv> length (filter (\<lambda>q. group_name q = old_name) (questions s))"
  assumes old: "old_name \<noteq> []" and d: "distinct (map q_id (questions s))"
    and j: "j < length (questions s)"
  shows "(group_name (questions s ! j) = old_name \<longrightarrow>
            (\<exists>k<n. questions s' ! j = (questions s ! j)\<lparr>group_name := new_name,
                       updated_at := now k, updated_by := Some actor\<rparr>))
         \<and> (group_name (questions s ! j) \<noteq> old_name \<longrightarrow> questions s' ! j = questions s ! j)"
proof -
  let ?qs = "sort_key (\<lambda>q. (group_name q, q_id q)) (filter (\<lambda>q. group_name q = old_name) (questions s))"
  let ?q = "questions s ! j"
  have s': "s' = rename_loop s now new_name actor 0 ?qs"
    using old by (simp add: s'_def rename_group_def get_all_questions_group)
  have ids: "map q_id (questions s') = map q_id (questions s)"
    unfolding s' by (rule rename_loop_ids)
  then have len: "length (questions s') = length (questions s)"
    by (metis length_map)
  have d': "distinct (map q_id (questions s'))" using ids d by simp
  have idj: "q_id (questions s' ! j) = q_id ?q"
    using ids j len by (metis nth_map)
  have new_row: "get_question_by_id s' (q_id ?q) = Some (questions s' ! j)"
    using get_by_id_nth [OF d', of j] j len idj by simp
  have old_row: "get_question_by_id s (q_id ?q) = Some ?q"
    using get_by_id_nth [OF d j] .
  have mem: "?q \<in> set (questions s)" using j by simp
  have dqs: "distinct (map q_id ?qs)" using d by (rule sort_key_distinct_ids)
  have setqs: "set ?qs = {q \<in> set (questions s). group_name q = old_name}" by auto
  have lenqs: "length ?qs = n" by (simp add: n_def)
  show ?thesis
  proof (intro conjI impI)
    assume g: "group_name ?q = old_name"
    then have "?q \<in> set ?qs" using mem setqs by blast
    then obtain k where k: "k < length ?qs" and qk: "?qs ! k = ?q"
      by (meson in_set_conv_nth)
    have ex: "get_question_by_id s (q_id (?qs ! k)) \<noteq> None" using old_row qk by simp
    have "get_question_by_id s' (q_id ?q)
            = Some (?q\<lparr>group_name := new_name, updated_at := now k, updated_by := Some actor\<rparr>)"
      using rename_loop_touched [OF dqs k ex, of now new_name actor 0] qk s' by simp
    then have "questions s' ! j = ?q\<lparr>group_name := new_name, updated_at := now k, updated_by := Some actor\<rparr>"
      using new_row by simp
    then show "\<exists>k<n. questions s' ! j = ?q\<lparr>group_name := new_name, updated_at := now k,
                         updated_by := Some actor\<rparr>"
      using k lenqs by blast
  next
    assume g: "group_name ?q \<noteq> old_name"
    have "q_id ?q \<notin> q_id ` set ?qs"
    proof
      assume "q_id ?q \<in> q_id ` set ?qs"
      then obtain r where r: "r \<in> set ?qs" "q_id r = q_id ?q" by auto
      then have "r \<in> set (questions s)" "group_name r = old_name" using setqs by auto
      then show False using same_id_same_row [OF d _ mem r(2)] g by auto
    qed
    then have "get_question_by_id s' (q_id ?q) = get_question_by_id s (q_id ?q)"
      unfolding s' by (rule rename_loop_untouched)
    then show "questions s' ! j = ?q" using new_row old_row by simp
  qed
qed

text \<open>
  Claim C7. For a non-empty old name (and unique primary keys), \<open>rename_group\<close>
  returns the number of questions, active or not, whose group is the old name;
  each of them gets the new group name, the acting user as updated_by and a
  clock reading of the call as updated_at; every other row stays as it is; the
  history table is unchanged and no version changes.
\<close>

theorem rename_group_correct:
  "old_name \<noteq> [] \<Longrightarrow> distinct (map q_id (questions s)) \<Longrightarrow>
     fst (rename_group s now old_name new_name actor)
       = int (length (filter (\<lambda>q. group_name q = old_name) (questions s)))
     \<and> history (snd (rename_group s now old_name new_name actor)) = history s
     \<and> length (questions (snd (rename_group s now old_name new_name actor))) = length (questions s)
     \<and> (\<forall>j<length (questions s).
          (group_name (questions s ! j) = old_name \<longrightarrow>
             (\<exists>k<length (filter (\<lambda>q. group_name q = old_name) (questions s)).
                questions (snd (rename_group s now old_name new_name actor)) ! j
                  = (questions s ! j)\<lparr>group_name := new_name, updated_at := now k,
                                       updated_by := Some actor\<rparr>))
          \<and> (group_name (questions s ! j) \<noteq> old_name \<longrightarrow>
               questions (snd (rename_group s now old_name new_name actor)) ! j = questions s ! j))
     \<and> map version (questions (snd (rename_group s now old_name new_name actor)))
         = map version (questions s)"
proof -
  assume old: "old_name \<noteq> []" and d: "distinct (map q_id (questions s))"
  let ?s' = "snd (rename_group s now old_name new_name actor)"
  let ?qs = "sort_key (\<lambda>q. (group_name q, q_id q)) (filter (\<lambda>q. group_name q = old_name) (questions s))"
  have s': "?s' = rename_loop s now new_name actor 0 ?qs"
    using old by (simp add: rename_group_def get_all_questions_group)
  have cnt: "fst (rename_group s now old_name new_name actor)
       = int (length (filter (\<lambda>q. group_name q = old_name) (questions s)))"
    using old by (simp add: rename_group_def get_all_questions_group)
  have hist: "history ?s' = history s"
    unfolding s' by (rule rename_loop_history)
  have "map q_id (questions ?s') = map q_id (questions s)"
    unfolding s' by (rule rename_loop_ids)
  then have len: "length (questions ?s') = length (questions s)"
    by (metis length_map)
  note rows = rename_group_row [OF old d, of _ now new_name actor]
  have vers: "map version (questions ?s') = map version (questions s)"
  proof (rule nth_equalityI)
    show "length (map version (questions ?s')) = length (map version (questions s))"
      using len by simp
  next
    fix j assume "j < length (map version (questions ?s'))"
    then have j: "j < length (questions s)" using len by simp
    have "version (questions ?s' ! j) = version (questions s ! j)"
      using rows [OF j] by (cases "group_name (questions s ! j) = old_name") auto
    then show "map version (questions ?s') ! j = map version (questions s) ! j"
      using j len by simp
  qed
  show ?thesis using cnt hist len vers rows by blast
qed

theorem rename_group_correct_witness:
  "''G'' \<noteq> [] \<and> distinct (map q_id (questions example_store))
   \<and> fst (rename_group example_store clock ''G'' ''H'' ''bob'') = 1
   \<and> history (snd (rename_group example_store clock ''G'' ''H'' ''bob'')) = []
   \<and> questions (snd (rename_group example_store clock ''G'' ''H'' ''bob'')) ! 0
        = example_q1\<lparr>group_name := ''H'', updated_at := 100, updated_by := Some ''bob''\<rparr>
   \<and> questions (snd (rename_group example_store clock ''G'' ''H'' ''bob'')) ! 1 = example_q2
   \<and> map version (questions (snd (rename_group example_store clock ''G'' ''H'' ''bob''))) = [1, 1]"
proof -
  have a: "''G'' \<noteq> []" by simp
  have q: "questions example_store = [example_q1, example_q2]" "history example_store = []"
    by (simp_all add: example_store_def)
  have g: "group_name example_q1 = ''G''" "group_name example_q2 \<noteq> ''G''"
    "version example_q1 = 1" "version example_q2 = 1"
    by (simp_all add: example_q1_def example_q2_def)
  have d: "distinct (map q_id (questions example_store))"
    by (simp add: q example_q1_def example_q2_def)
  note t = rename_group_correct [OF a d, of clock "''H''" "''bob''"]
  let ?s' = "snd (rename_group example_store clock ''G'' ''H'' ''bob'')"
  have n: "length (filter (\<lambda>q. group_name q = ''G'') (questions example_store)) = 1"
    using q g by simp
  have c1: "fst (rename_group example_store clock ''G'' ''H'' ''bob'') = 1"
    using t n by simp
  have c2: "history ?s' = []" using t q by simp
  have r0: "\<exists>k<1. questions ?s' ! 0
              = (questions example_store ! 0)\<lparr>group_name := ''H'', updated_at := clock k,
                                               updated_by := Some ''bob''\<rparr>"
    using t n q g by simp
  have c3: "questions ?s' ! 0
              = example_q1\<lparr>group_name := ''H'', updated_at := 100, updated_by := Some ''bob''\<rparr>"
    using r0 q by (simp add: clock_def)
  have c4: "questions ?s' ! 1 = example_q2"
    using t q g by simp
  have c5: "map version (questions ?s') = [1, 1]"
    using t q g by simp
  show ?thesis using a d c1 c2 c3 c4 c5 by simp
qed

section \<open>Empty-string filters\<close>

lemma rename_loop_rows:
  "r \<in> set (questions (rename_loop s now new_name actor i qs)) \<Longrightarrow>
     (q_id r \<in> q_id ` set qs \<longrightarrow> group_name r = new_name \<and> updated_by r = Some actor)
     \<and> (q_id r \<notin> q_id ` set qs \<longrightarrow> r \<in> set (questions s))"
proof (induction qs arbitrary: s i)
  case Nil
  then show ?case by simp
next
  case (Cons q qs)
  let ?q' = "q\<lparr>group_name := new_name, updated_at := now i, updated_by := Some actor\<rparr>"
  let ?s1 = "save_question s ?q'"
  from Cons.prems have r: "r \<in> set (questions (rename_loop ?s1 now new_name actor (Suc i) qs))"
    by simp
  note ih = Cons.IH [OF r]
  have s1: "\<And>x. x \<in> set (questions ?s1) \<Longrightarrow>
               (q_id x = q_id q \<longrightarrow> x = ?q') \<and> (q_id x \<noteq> q_id q \<longrightarrow> x \<in> set (questions s))"
    by (auto simp: save_question_def)
  show ?case
  proof (cases "q_id r \<in> q_id ` set qs")
    case True
    then show ?thesis using ih by simp
  next
    case False
    then have m: "r \<in> set (questions ?s1)" using ih by simp
    show ?thesis using s1 [OF m] False by auto
  qed
qed

lemma ungroup_loop_rows:
  "r \<in> set (questions (ungroup_loop s now i qs)) \<Longrightarrow>
     (q_id r \<in> q_id ` set qs \<longrightarrow> group_name r = ''Ungrouped'')
     \<and> (q_id r \<notin> q_id ` set qs \<longrightarrow> r \<in> set (questions s))"
proof (induction qs arbitrary: s i)
  case Nil
  then show ?case by simp
next
  case (Cons q qs)
  let ?q' = "if group_name q = ''Ungrouped'' then q
             else q\<lparr>group_name := ''Ungrouped'', updated_at := now i\<rparr>"
  let ?s1 = "save_question s ?q'"
  from Cons.prems have r: "r \<in> set (questions (ungroup_loop ?s1 now (Suc i) qs))"
    by simp
  note ih = Cons.IH [OF r]
  have id': "q_id ?q' = q_id q" and g': "group_name ?q' = ''Ungrouped''" by simp_all
  have s1: "\<And>x. x \<in> set (questions ?s1) \<Longrightarrow>
               (q_id x = q_id q \<longrightarrow> x = ?q') \<and> (q_id x \<noteq> q_id q \<longrightarrow> x \<in> set (questions s))"
    unfolding save_question_def id' by auto
  show ?case
  proof (cases "q_id r \<in> q_id ` set qs")
    case True
    then show ?thesis using ih by simp
  next
    case False
    then have m: "r \<in> set (questions ?s1)" using ih by simp
    show ?thesis
    proof (cases "q_id r = q_id q")
      case True
      then have "r = ?q'" using s1 [OF m] by blast
      then show ?thesis using g' True by simp
    next
      case False
      then show ?thesis using s1 [OF m] \<open>q_id r \<notin> q_id ` set qs\<close> by simp
    qed
  qed
qed

lemma ungroup_loop_ids:
  "map q_id (questions (ungroup_loop s now i qs)) = map q_id (questions s)"
  by (induction qs arbitrary: s i) (simp_all add: save_question_ids)

lemma ungroup_loop_history: "history (ungroup_loop s now i qs) = history s"
  by (induction qs arbitrary: s i) (simp_all add: history_save)

lemma delete_loop_questions:
  "questions (delete_loop s qs) = filter (\<lambda>r. q_id r \<notin> q_id ` set qs) (questions s)"
proof (induction qs arbitrary: s)
  case Nil
  show ?case by simp
next
  case (Cons q qs)
  have "filter (\<lambda>r. q_id r \<notin> q_id ` set qs) (filter (\<lambda>r. q_id r \<noteq> q_id q) (questions s))
          = filter (\<lambda>r. q_id r \<notin> q_id ` set (q # qs)) (questions s)"
    by (auto intro: filter_cong)
  then show ?case using Cons.IH [of "session_delete s q"] by (simp add: session_delete_def)
qed

lemma delete_loop_history:
  "history (delete_loop s qs) = filter (\<lambda>h. h_question_id h \<notin> q_id ` set qs) (history s)"
proof (induction qs arbitrary: s)
  case Nil
  show ?case by simp
next
  case (Cons q qs)
  have "filter (\<lambda>h. h_question_id h \<notin> q_id ` set qs)
          (filter (\<lambda>h. h_question_id h \<noteq> q_id q) (history s))
          = filter (\<lambda>h. h_question_id h \<notin> q_id ` set (q # qs)) (history s)"
    by (auto intro: filter_cong)
  then show ?case using Cons.IH [of "session_delete s q"] by (simp add: session_delete_def)
qed

lemma ids_of_rows: "q_id ` set rows = set (map q_id rows)"
  by simp

text \<open>
  Claim C9. An empty string given as group or source filter of
  \<open>get_all_questions\<close> is dropped like an absent one. So \<open>rename_group\<close> with the
  empty old name counts and renames every question of the store, and
  \<open>delete_group\<close> with the empty group name counts every question and deletes all
  of them (with their history) or moves all of them to "Ungrouped" -- whatever
  their group names are.
\<close>

theorem empty_string_filter_dropped:
  "get_all_questions s src (Some []) inc = get_all_questions s src None inc
   \<and> get_all_questions s (Some []) grp inc = get_all_questions s None grp inc
   \<and> fst (rename_group s now [] new_name actor) = int (length (questions s))
   \<and> length (questions (snd (rename_group s now [] new_name actor))) = length (questions s)
   \<and> (\<forall>r \<in> set (questions (snd (rename_group s now [] new_name actor))).
         group_name r = new_name \<and> updated_by r = Some actor)
   \<and> fst (delete_group s now [] True) = int (length (questions s))
   \<and> questions (snd (delete_group s now [] True)) = []
   \<and> history (snd (delete_group s now [] True))
       = filter (\<lambda>h. h_question_id h \<notin> q_id ` set (questions s)) (history s)
   \<and> fst (delete_group s now [] False) = int (length (questions s))
   \<and> length (questions (snd (delete_group s now [] False))) = length (questions s)
   \<and> (\<forall>r \<in> set (questions (snd (delete_group s now [] False))). group_name r = ''Ungrouped'')"
proof -
  let ?qs = "sort_key (\<lambda>q. (group_name q, q_id q)) (questions s)"
  have setqs: "set ?qs = set (questions s)" by simp
  have f1: "get_all_questions s src (Some []) inc = get_all_questions s src None inc"
    by (simp add: get_all_questions_def)
  have f2: "get_all_questions s (Some []) grp inc = get_all_questions s None grp inc"
    by (simp add: get_all_questions_def)
  let ?r = "snd (rename_group s now [] new_name actor)"
  have r: "?r = rename_loop s now new_name actor 0 ?qs"
    by (simp add: rename_group_def get_all_questions_empty_group)
  have r1: "fst (rename_group s now [] new_name actor) = int (length (questions s))"
    by (simp add: rename_group_def get_all_questions_empty_group)
  have rids: "map q_id (questions ?r) = map q_id (questions s)"
    unfolding r by (rule rename_loop_ids)
  then have r2: "length (questions ?r) = length (questions s)"
    by (metis length_map)
  have r3: "\<forall>x \<in> set (questions ?r). group_name x = new_name \<and> updated_by x = Some actor"
  proof
    fix x assume x: "x \<in> set (questions ?r)"
    then have "q_id x \<in> set (map q_id (questions ?r))" by simp
    then have "q_id x \<in> q_id ` set ?qs" using rids setqs by simp
    then show "group_name x = new_name \<and> updated_by x = Some actor"
      using rename_loop_rows [of x s now new_name actor 0 ?qs] x r by simp
  qed
  let ?d = "snd (delete_group s now [] True)"
  have d: "?d = delete_loop s ?qs"
    by (simp add: delete_group_def get_all_questions_empty_group)
  have d1: "fst (delete_group s now [] True) = int (length (questions s))"
    by (simp add: delete_group_def get_all_questions_empty_group)
  have d2: "questions ?d = []"
    unfolding d delete_loop_questions setqs by (simp add: filter_empty_conv)
  have d3: "history ?d = filter (\<lambda>h. h_question_id h \<notin> q_id ` set (questions s)) (history s)"
    unfolding d delete_loop_history setqs ..
  let ?u = "snd (delete_group s now [] False)"
  have u: "?u = ungroup_loop s now 0 ?qs"
    by (simp add: delete_group_def get_all_questions_empty_group)
  have u1: "fst (delete_group s now [] False) = int (length (questions s))"
    by (simp add: delete_group_def get_all_questions_empty_group)
  have uids: "map q_id (questions ?u) = map q_id (questions s)"
    unfolding u by (rule ungroup_loop_ids)
  then have u2: "length (questions ?u) = length (questions s)"
    by (metis length_map)
  have u3: "\<forall>x \<in> set (questions ?u). group_name x = ''Ungrouped''"
  proof
    fix x assume x: "x \<in> set (questions ?u)"
    then have "q_id x \<in> set (map q_id (questions ?u))" by simp
    then have "q_id x \<in> q_id ` set ?qs" using uids setqs by simp
    then show "group_name x = ''Ungrouped''"
      using ungroup_loop_rows [of x s now 0 ?qs] x u by simp
  qed
  show ?thesis using f1 f2 r1 r2 r3 d1 d2 d3 u1 u2 u3 by blast
qed

theorem empty_string_filter_dropped_witness:
  "map group_name (questions example_store) = [''G'', ''H'']
   \<and> get_all_questions example_store None (Some []) True = [example_q1, example_q2]
   \<and> fst (rename_group example_store clock [] ''N'' ''bob'') = 2
   \<and> map group_name (questions (snd (rename_group example_store clock [] ''N'' ''bob'')))
        = [''N'', ''N'']
   \<and> fst (delete_group example_store clock [] True) = 2
   \<and> questions (snd (delete_group example_store clock [] True)) = []
   \<and> fst (delete_group example_store clock [] False) = 2
   \<and> map group_name (questions (snd (delete_group example_store clock [] False)))
        = [''Ungrouped'', ''Ungrouped'']"
proof -
  have q: "questions example_store = [example_q1, example_q2]"
    by (simp add: example_store_def)
  have g: "map group_name (questions example_store) = [''G'', ''H'']"
    by (simp add: q example_q1_def example_q2_def)
  have l: "get_all_questions example_store None None True = [example_q1, example_q2]"
    by code_simp
  have two: "\<And>xs :: question list. length xs = 2 \<Longrightarrow> \<exists>a b. xs = [a, b]"
    by (auto simp: length_Suc_conv numeral_2_eq_2)
  note t = empty_string_filter_dropped [of example_store None True None clock "''N''" "''bob''"]
  have a: "get_all_questions example_store None (Some []) True = [example_q1, example_q2]"
    using t l by simp
  have "length (questions (snd (rename_group example_store clock [] ''N'' ''bob''))) = 2"
    using t q by simp
  then obtain a1 b1 where
    "questions (snd (rename_group example_store clock [] ''N'' ''bob'')) = [a1, b1]"
    using two by blast
  then have r: "map group_name (questions (snd (rename_group example_store clock [] ''N'' ''bob'')))
                  = [''N'', ''N'']"
    using t by simp
  have "length (questions (snd (delete_group example_store clock [] False))) = 2"
    using t q by simp
  then obtain a2 b2 where
    "questions (snd (delete_group example_store clock [] False)) = [a2, b2]"
    using two by blast
  then have u: "map group_name (questions (snd (delete_group example_store clock [] False)))
                  = [''Ungrouped'', ''Ungrouped'']"
    using t by simp
  show ?thesis using t g a q r u by simp
qed

section \<open>Version bookkeeping over sequences of mutations\<close>

lemma toggle_changed:
  "get_question_by_id s qid = Some q \<Longrightarrow> is_active q \<noteq> status \<Longrightarrow>
     toggle_active_status s now qid status actor reason =
       (Some (q\<lparr>is_active := status, version := version q + 1, updated_at := now 1,
                updated_by := Some actor\<rparr>),
        save_question
          (add_history s (snapshot s q (now 0) actor
             (if py_truthy reason then reason
              else Some ((if status then ''Activated'' else ''Deactivated'') @ '' question''))))
          (q\<lparr>is_active := status, version := version q + 1, updated_at := now 1,
             updated_by := Some actor\<rparr>))"
  by (simp add: toggle_active_status_def Let_def snapshot_def add_history_def)

lemma tracked_step:
  assumes t: "tracked s qid m" and q: "get_question_by_id s qid = Some q"
  shows "\<exists>q' e. apply_mutation s qid m = (Some q', snd (apply_mutation s qid m))
           \<and> get_question_by_id (snd (apply_mutation s qid m)) qid = Some q'
           \<and> version q' = version q + 1
           \<and> history (snd (apply_mutation s qid m)) = history s @ [e]
           \<and> h_question_id e = qid \<and> h_version e = version q"
proof -
  have qid: "q_id q = qid" using q by (rule get_by_id_Some_id)
  show ?thesis
  proof (cases m)
    case (Edit now actor new_text new_group new_source reason)
    show ?thesis
      using qid q unfolding Edit apply_mutation.simps update_found [OF q]
      by (simp add: history_save history_add_history get_by_id_save get_by_id_add_history snapshot_def)
  next
    case (Toggle now status actor reason)
    have ne: "is_active q \<noteq> status" using t q Toggle by simp
    show ?thesis
      using qid q unfolding Toggle apply_mutation.simps toggle_changed [OF q ne]
      by (simp add: history_save history_add_history get_by_id_save get_by_id_add_history snapshot_def)
  next
    case (Restore now hid actor reason)
    from t Restore obtain h where h: "get_history_entry s hid = Some h" "h_question_id h = qid"
      by (auto split: option.splits)
    show ?thesis
      using qid q
      unfolding Restore apply_mutation.simps restore_delegates [OF h] update_found [OF q]
      by (simp add: history_save history_add_history get_by_id_save get_by_id_add_history snapshot_def)
  qed
qed

lemma untracked_step: "\<not> tracked s qid m \<Longrightarrow> snd (apply_mutation s qid m) = s"
proof (cases m)
  case (Edit now actor new_text new_group new_source reason)
  assume "\<not> tracked s qid m"
  then show ?thesis using Edit by (simp add: update_missing)
next
  case (Toggle now status actor reason)
  assume "\<not> tracked s qid m"
  then show ?thesis using Toggle
    by (auto simp: toggle_active_status_def split: option.splits)
next
  case (Restore now hid actor reason)
  assume n: "\<not> tracked s qid m"
  show ?thesis
  proof (cases "get_history_entry s hid")
    case None
    then show ?thesis using Restore by (simp add: restore_no_entry)
  next
    case (Some h)
    show ?thesis
    proof (cases "h_question_id h = qid")
      case False
      then show ?thesis using Restore Some by (simp add: restore_other_question)
    next
      case True
      then have "get_question_by_id s qid = None" using n Restore Some by simp
      then show ?thesis using Restore Some True by (simp add: restore_delegates update_missing)
    qed
  qed
qed

lemma apply_mutations_versions:
  "all_tracked s qid ms \<Longrightarrow> get_question_by_id s qid = Some q \<Longrightarrow> version q = int n + 1 \<Longrightarrow>
   map h_version (filter (\<lambda>h. h_question_id h = qid) (history s)) = [1..int n] \<Longrightarrow>
     \<exists>q'. get_question_by_id (apply_mutations s qid ms) qid = Some q'
       \<and> version q' = int (n + length ms) + 1
       \<and> map h_version (filter (\<lambda>h. h_question_id h = qid) (history (apply_mutations s qid ms)))
           = [1..int (n + length ms)]"
proof (induction ms arbitrary: s q n)
  case Nil
  then show ?case by simp
next
  case (Cons m ms)
  let ?s1 = "snd (apply_mutation s qid m)"
  have t: "tracked s qid m" and rest: "all_tracked ?s1 qid ms"
    using Cons.prems(1) by simp_all
  from tracked_step [OF t Cons.prems(2)] obtain q1 e where
    q1: "get_question_by_id ?s1 qid = Some q1" and v1: "version q1 = version q + 1"
    and h1: "history ?s1 = history s @ [e]" and e: "h_question_id e = qid" "h_version e = version q"
    by blast
  have v1': "version q1 = int (Suc n) + 1" using v1 Cons.prems(3) by simp
  have "[1..int (Suc n)] = [1..int n] @ [int n + 1]"
    using upto_rec2 [of 1 "int (Suc n)"] by simp
  then have hv: "map h_version (filter (\<lambda>h. h_question_id h = qid) (history ?s1)) = [1..int (Suc n)]"
    using h1 e Cons.prems(3,4) by simp
  from Cons.IH [OF rest q1 v1' hv] show ?case by simp
qed

lemma find_append_None:
  "find P xs = None \<Longrightarrow> find P (xs @ ys) = find P ys"
  by (induction xs) (auto split: if_splits)

lemma create_question_fresh:
  assumes ok: "store_ok s0" and c: "create_question s0 now new_text new_group new_source creator = (q, s1)"
  shows "get_question_by_id s1 (q_id q) = Some q \<and> version q = 1
         \<and> filter (\<lambda>h. h_question_id h = q_id q) (history s1) = []"
proof -
  have qid: "q_id q = next_question_id s0" and v: "version q = 1"
    and s1: "questions s1 = questions s0 @ [q]" "history s1 = history s0"
    using c by (auto simp: create_question_def Let_def)
  have small: "\<forall>r \<in> set (questions s0). q_id r < next_question_id s0"
    using ok by (simp add: store_ok_def)
  then have "find (\<lambda>r. q_id r = q_id q) (questions s0) = None"
    using qid by (auto simp: find_None_iff)
  then have g: "get_question_by_id s1 (q_id q) = Some q"
    by (simp add: get_question_by_id_def s1 find_append_None)
  have "ref_integrity s0" using ok by (simp add: store_ok_def)
  then have "\<forall>h \<in> set (history s0). h_question_id h \<in> q_id ` set (questions s0)"
    by (simp add: ref_integrity_def get_by_id_None_iff)
  then have "\<forall>h \<in> set (history s0). h_question_id h \<noteq> q_id q"
    using small qid by fastforce
  then have "filter (\<lambda>h. h_question_id h = q_id q) (history s1) = []"
    by (simp add: s1 filter_empty_conv)
  then show ?thesis using g v by simp
qed

lemma insort_key_last:
  "\<forall>y \<in> set ys. f y < f x \<Longrightarrow> insort_key f x ys = ys @ [x]"
  by (induction ys) auto

lemma sort_key_decreasing:
  "sorted_wrt (\<lambda>a b. f b < f a) xs \<Longrightarrow> sort_key f xs = rev xs"
proof (induction xs)
  case Nil
  show ?case by simp
next
  case (Cons x xs)
  then have "sort_key f xs = rev xs" and "\<forall>y \<in> set (rev xs). f y < f x" by simp_all
  then show ?case by (simp add: sort_key_def insort_key_last)
qed

lemma history_newest_first:
  assumes "map h_version (filter (\<lambda>h. h_question_id h = qid) (history s)) = [1..n]"
  shows "map h_version (get_question_history s qid) = rev [1..n]"
proof -
  let ?xs = "filter (\<lambda>h. h_question_id h = qid) (history s)"
  have "sorted_wrt (<) (map h_version ?xs)" using assms by (simp add: sorted_wrt_upto)
  then have "sorted_wrt (\<lambda>a b. - h_version b < - h_version a) ?xs"
    by (simp add: sorted_wrt_map)
  then have "sort_key (\<lambda>h. - h_version h) ?xs = rev ?xs"
    by (rule sort_key_decreasing)
  then show ?thesis using assms by (simp add: get_question_history_def rev_map [symmetric])
qed

text \<open>
  Claim C2. Take a state that satisfies the integrity constraints, create a
  question in it, and apply to that question any sequence of N mutations each of
  which is tracked when it runs (an edit, a toggle that changes the status, a
  restore from a history row of the question). Then the live version is N + 1,
  the question has exactly N history rows, their versions in insertion order are
  1, ..., N (so the set of versions is {1..N}, and \<open>get_question_history\<close> lists
  N, ..., 1), and the live version exceeds every version in its history.
\<close>

theorem version_history_gap_free:
  "store_ok s0 \<Longrightarrow> create_question s0 now new_text new_group new_source creator = (q, s1) \<Longrightarrow>
   all_tracked s1 (q_id q) ms \<Longrightarrow>
     (\<exists>q'. get_question_by_id (apply_mutations s1 (q_id q) ms) (q_id q) = Some q'
        \<and> version q' = int (length ms) + 1
        \<and> map h_version (filter (\<lambda>h. h_question_id h = q_id q)
                            (history (apply_mutations s1 (q_id q) ms)))
            = [1..int (length ms)]
        \<and> length (get_question_history (apply_mutations s1 (q_id q) ms) (q_id q)) = length ms
        \<and> map h_version (get_question_history (apply_mutations s1 (q_id q) ms) (q_id q))
            = rev [1..int (length ms)]
        \<and> h_version ` set (get_question_history (apply_mutations s1 (q_id q) ms) (q_id q))
            = {1..int (length ms)}
        \<and> (\<forall>h \<in> set (get_question_history (apply_mutations s1 (q_id q) ms) (q_id q)).
              h_version h < version q'))"
proof -
  assume ok: "store_ok s0"
    and c: "create_question s0 now new_text new_group new_source creator = (q, s1)"
    and tr: "all_tracked s1 (q_id q) ms"
  let ?s' = "apply_mutations s1 (q_id q) ms"
  let ?N = "int (length ms)"
  from create_question_fresh [OF ok c]
  have g: "get_question_by_id s1 (q_id q) = Some q" and v: "version q = int 0 + 1"
    and e: "map h_version (filter (\<lambda>h. h_question_id h = q_id q) (history s1)) = [1..int 0]"
    by simp_all
  from apply_mutations_versions [OF tr g v e] obtain q' where
    q': "get_question_by_id ?s' (q_id q) = Some q'" and vq: "version q' = ?N + 1"
    and hv: "map h_version (filter (\<lambda>h. h_question_id h = q_id q) (history ?s')) = [1..?N]"
    by auto
  have nf: "map h_version (get_question_history ?s' (q_id q)) = rev [1..?N]"
    using hv by (rule history_newest_first)
  have "length (map h_version (get_question_history ?s' (q_id q))) = length (rev [1..?N])"
    using nf by simp
  then have len: "length (get_question_history ?s' (q_id q)) = length ms" by simp
  have "set (map h_version (get_question_history ?s' (q_id q))) = set (rev [1..?N])"
    using nf by simp
  then have st: "h_version ` set (get_question_history ?s' (q_id q)) = {1..?N}" by simp
  then have lt: "\<forall>h \<in> set (get_question_history ?s' (q_id q)). h_version h < version q'"
    using vq by fastforce
  show ?thesis using q' vq hv len nf st lt by blast
qed

theorem version_history_gap_free_witness:
  "store_ok empty_store
   \<and> create_question empty_store clock ''Q1'' ''G'' ''A'' (Some ''alice'')
       = (example_q1\<lparr>created_at := 100, updated_at := 101\<rparr>,
          \<lparr>questions = [example_q1\<lparr>created_at := 100, updated_at := 101\<rparr>], history = [],
            next_question_id = 2, next_history_id = 1\<rparr>)
   \<and> all_tracked \<lparr>questions = [example_q1\<lparr>created_at := 100, updated_at := 101\<rparr>], history = [],
            next_question_id = 2, next_history_id = 1\<rparr> 1 example_mutations
   \<and> (\<exists>q'. get_question_by_id
               (apply_mutations \<lparr>questions = [example_q1\<lparr>created_at := 100, updated_at := 101\<rparr>],
                  history = [], next_question_id = 2, next_history_id = 1\<rparr> 1 example_mutations) 1
               = Some q' \<and> version q' = 4)
   \<and> map h_version (get_question_history
               (apply_mutations \<lparr>questions = [example_q1\<lparr>created_at := 100, updated_at := 101\<rparr>],
                  history = [], next_question_id = 2, next_history_id = 1\<rparr> 1 example_mutations) 1)
       = [3, 2, 1]"
proof -
  let ?q = "example_q1\<lparr>created_at := 100, updated_at := 101\<rparr>"
  let ?s1 = "\<lparr>questions = [?q], history = [], next_question_id = 2, next_history_id = 1\<rparr>"
  have ok: "store_ok empty_store"
    by (simp add: store_ok_def ref_integrity_def empty_store_def)
  have c: "create_question empty_store clock ''Q1'' ''G'' ''A'' (Some ''alice'') = (?q, ?s1)"
    by (simp add: create_question_def Let_def empty_store_def example_q1_def clock_def)
  have i: "q_id ?q = 1" by (simp add: example_q1_def)
  have tr: "all_tracked ?s1 (q_id ?q) example_mutations"
    unfolding i by code_simp
  have n: "int (length example_mutations) = 3" by (simp add: example_mutations_def)
  have u: "rev [1..3::int] = [3, 2, 1]" by code_simp
  from version_history_gap_free [OF ok c tr] show ?thesis
    using ok c tr unfolding i n u by auto
qed

section \<open>The integrity constraints hold in every state the repository produces\<close>

lemma store_ok_empty: "store_ok empty_store"
  by (simp add: store_ok_def ref_integrity_def empty_store_def)

lemma ref_integrity_ids:
  "ref_integrity s \<longleftrightarrow> (\<forall>h \<in> set (history s). h_question_id h \<in> set (map q_id (questions s)))"
  by (simp add: ref_integrity_def get_by_id_None_iff)

lemma store_ok_save:
  assumes "store_ok s"
  shows "store_ok (save_question s q)"
proof -
  have ids: "map q_id (questions (save_question s q)) = map q_id (questions s)"
    by (rule save_question_ids)
  have same: "history (save_question s q) = history s"
    "next_question_id (save_question s q) = next_question_id s"
    "next_history_id (save_question s q) = next_history_id s"
    by (simp_all add: save_question_def)
  have bound: "\<forall>r \<in> set (questions (save_question s q)). q_id r < next_question_id s"
  proof
    fix r assume "r \<in> set (questions (save_question s q))"
    then have "q_id r \<in> set (map q_id (questions (save_question s q)))" by simp
    then have "q_id r \<in> set (map q_id (questions s))" using ids by simp
    then show "q_id r < next_question_id s" using assms by (auto simp: store_ok_def)
  qed
  show ?thesis
    using assms bound unfolding store_ok_def ref_integrity_ids ids same by simp
qed

lemma store_ok_add_history:
  assumes "store_ok s" and "get_question_by_id s (h_question_id e) \<noteq> None"
  shows "store_ok (add_history s e)"
proof -
  have "next_history_id s \<notin> h_id ` set (history s)"
    using assms(1) by (auto simp: store_ok_def)
  moreover have "h_question_id e \<in> set (map q_id (questions s))"
    using assms(2) by (simp add: get_by_id_None_iff)
  ultimately show ?thesis
    using assms(1) unfolding store_ok_def ref_integrity_ids
    by (auto simp: add_history_def)
qed

lemma store_ok_session_delete:
  assumes "store_ok s"
  shows "store_ok (session_delete s q)"
proof -
  have d1: "distinct (map q_id (filter (\<lambda>r. q_id r \<noteq> q_id q) (questions s)))"
    using assms by (simp add: store_ok_def distinct_map_filter)
  have d2: "distinct (map h_id (filter (\<lambda>h. h_question_id h \<noteq> q_id q) (history s)))"
    using assms by (simp add: store_ok_def distinct_map_filter)
  show ?thesis
    using assms d1 d2 unfolding store_ok_def ref_integrity_ids
    by (auto simp: session_delete_def)
qed

lemma store_ok_create:
  assumes "store_ok s"
  shows "store_ok (snd (create_question s now new_text new_group new_source creator))"
proof -
  have "next_question_id s \<notin> q_id ` set (questions s)"
    using assms by (auto simp: store_ok_def)
  then show ?thesis
    using assms unfolding store_ok_def ref_integrity_ids
    by (auto simp: create_question_def Let_def)
qed

lemma store_ok_delete_question:
  "store_ok s \<Longrightarrow> store_ok (snd (delete_question s qid))"
  by (simp add: delete_question_def store_ok_session_delete split: option.splits)

lemma store_ok_update:
  assumes "store_ok s"
  shows "store_ok (snd (update_question_with_history s now qid actor new_text new_group new_source reason))"
proof (cases "get_question_by_id s qid")
  case None
  then show ?thesis using assms by (simp add: update_missing)
next
  case (Some q)
  have "get_question_by_id s (h_question_id (snapshot s q (now 0) actor reason)) \<noteq> None"
    using Some get_by_id_Some_id [OF Some] by (simp add: snapshot_def)
  then show ?thesis
    using assms by (simp add: update_found [OF Some] store_ok_save store_ok_add_history)
qed

lemma store_ok_toggle:
  assumes "store_ok s"
  shows "store_ok (snd (toggle_active_status s now qid status actor reason))"
proof (cases "get_question_by_id s qid")
  case None
  then show ?thesis using assms by (simp add: toggle_active_status_def)
next
  case (Some q)
  show ?thesis
  proof (cases "is_active q = status")
    case True
    then show ?thesis using assms Some by (simp add: toggle_active_status_def)
  next
    case False
    have "\<And>r. get_question_by_id s (h_question_id (snapshot s q (now 0) actor r)) \<noteq> None"
      using Some get_by_id_Some_id [OF Some] by (simp add: snapshot_def)
    then show ?thesis
      using assms by (simp add: toggle_changed [OF Some False] store_ok_save store_ok_add_history)
  qed
qed

lemma store_ok_restore:
  assumes "store_ok s"
  shows "store_ok (snd (restore_question_version s now qid hid actor reason))"
proof (cases "get_history_entry s hid")
  case None
  then show ?thesis using assms by (simp add: restore_no_entry)
next
  case (Some h)
  show ?thesis
  proof (cases "h_question_id h = qid")
    case False
    then show ?thesis using assms Some by (simp add: restore_other_question)
  next
    case True
    show ?thesis using assms by (simp add: restore_delegates [OF Some True] store_ok_update)
  qed
qed

lemma store_ok_rename_loop:
  "store_ok s \<Longrightarrow> store_ok (rename_loop s now new_name actor i qs)"
  by (induction qs arbitrary: s i) (simp_all add: store_ok_save)

lemma store_ok_ungroup_loop: "store_ok s \<Longrightarrow> store_ok (ungroup_loop s now i qs)"
  by (induction qs arbitrary: s i) (simp_all add: store_ok_save)

lemma store_ok_delete_loop: "store_ok s \<Longrightarrow> store_ok (delete_loop s qs)"
  by (induction qs arbitrary: s) (simp_all add: store_ok_session_delete)

lemma store_ok_rename_group:
  "store_ok s \<Longrightarrow> store_ok (snd (rename_group s now old_name new_name actor))"
  by (simp add: rename_group_def Let_def store_ok_rename_loop)

lemma store_ok_delete_group:
  "store_ok s \<Longrightarrow> store_ok (snd (delete_group s now g delete_questions))"
  by (simp add: delete_group_def Let_def store_ok_delete_loop store_ok_ungroup_loop)

lemma store_ok_apply_mutation: "store_ok s \<Longrightarrow> store_ok (snd (apply_mutation s qid m))"
  by (cases m) (simp_all add: store_ok_update store_ok_toggle store_ok_restore)

end
